theory Spec2Isabelle
  imports Complex_Main "HOL-Library.Log_Nat"
begin

section \<open>Python values used by the monitor\<close>

text \<open>
  A Python \<open>str\<close> is a sequence of Unicode code points, and \<open>len\<close> counts code points.
  The glyphs of the graph are outside ASCII, so a string is modelled as the list of its
  code points; ASCII literals are converted from HOL strings by \<open>py\<close>.
\<close>

type_synonym glyph = nat
type_synonym pystr = "glyph list"

definition py :: "string \<Rightarrow> pystr" where
  "py s = map of_char s"

definition corner :: glyph where \<comment> \<open>U+250C, the pointer glyph\<close>
  "corner = 9484"

definition full_block :: glyph where \<comment> \<open>U+2588, a filled bar cell\<close>
  "full_block = 9608"

definition light_shade :: glyph where \<comment> \<open>U+2591, an empty bar cell\<close>
  "light_shade = 9617"

definition blank :: glyph where \<comment> \<open>the space character\<close>
  "blank = 32"

text \<open>\<open>str(n)\<close> for an integer: decimal digits, most significant first, with a sign.\<close>

fun str_nat :: "nat \<Rightarrow> pystr" where
  "str_nat n = (if n < 10 then [48 + n] else str_nat (n div 10) @ [48 + n mod 10])"

declare str_nat.simps [simp del]

definition str_int :: "int \<Rightarrow> pystr" where
  "str_int i = (if i < 0 then 45 # str_nat (nat (- i)) else str_nat (nat i))"

text \<open>
  \<open>round(x)\<close> with one argument returns an \<open>int\<close> and rounds halves to the even
  neighbour. The argument is an \<open>int\<close> or a \<open>float\<close>; both denote a rational number
  exactly, and \<open>round\<close> as well as the comparisons with \<open>0\<close> and \<open>100\<close> are exact on
  them, so the value passed to a graph is modelled as a \<open>rat\<close>.
\<close>

definition py_round :: "rat \<Rightarrow> int" where
  "py_round x =
     (let f = \<lfloor>x\<rfloor>; d = x - of_int f
      in if d < 1 / 2 then f
         else if 1 / 2 < d then f + 1
         else if even f then f else f + 1)"

text \<open>\<open>int(x)\<close> truncates towards zero.\<close>

definition py_int :: "rat \<Rightarrow> int" where
  "py_int x = (if 0 \<le> x then \<lfloor>x\<rfloor> else \<lceil>x\<rceil>)"

text \<open>
  The errors the script raises itself. An \<open>assert\<close> carries its message.
  (Running Python with \<open>-O\<close> removes \<open>assert\<close> statements; the model is the script
  as it runs by default.)
\<close>

datatype error = AssertionError string | TypeError | ZeroDivisionError

text \<open>
  A Python \<open>float\<close> is an IEEE binary64 number. \<open>fl64\<close> rounds a rational to the
  nearest number with a 53-bit mantissa, ties to the even mantissa: \<open>expo x\<close> is the
  binary exponent of \<open>x\<close> (the largest \<open>e\<close> with \<open>2 ^ e \<le> \<bar>x\<bar>\<close>) and
  \<open>2 ^ (e - 52)\<close> the spacing of the floats around \<open>x\<close>. The exponent range is not
  limited: overflow and subnormal numbers are not modelled. The true division of two
  integers and the product of two floats are the correctly rounded exact results.
\<close>

definition expo :: "rat \<Rightarrow> int" where
  "expo x = (if 1 \<le> \<bar>x\<bar> then bitlen \<lfloor>\<bar>x\<bar>\<rfloor> - 1 else - bitlen (\<lceil>1 / \<bar>x\<bar>\<rceil> - 1))"

definition fl64 :: "rat \<Rightarrow> rat" where
  "fl64 x = (if x = 0 then 0
             else let u = 2 powi (expo x - 52) in of_int (py_round (x / u)) * u)"

definition true_div :: "int \<Rightarrow> int \<Rightarrow> rat" where
  "true_div a b = fl64 (of_int a / of_int b)"


section \<open>The display surface\<close>

text \<open>
  The curses window is shared and mutated by every drawing call, so it is passed
  explicitly. \<open>cells\<close> is the window's content, addressed by (row, column);
  \<open>shown\<close> is what the terminal displays, which \<open>refresh\<close> brings up to date.
  The window is taken to be large enough for what is drawn: the \<open>curses.error\<close> of a
  too small terminal belongs to the display backend and is not modelled.
\<close>

record window =
  cells :: "int \<times> int \<Rightarrow> glyph"
  shown :: "int \<times> int \<Rightarrow> glyph"

fun put :: "(int \<times> int \<Rightarrow> glyph) \<Rightarrow> int \<Rightarrow> int \<Rightarrow> pystr \<Rightarrow> (int \<times> int \<Rightarrow> glyph)" where
  "put f y x [] = f"
| "put f y x (c # cs) = put (f((y, x) := c)) y (x + 1) cs"

definition addstr :: "window \<Rightarrow> int \<Rightarrow> int \<Rightarrow> pystr \<Rightarrow> window" where
  "addstr w y x s = w\<lparr>cells := put (cells w) y x s\<rparr>"

definition refresh :: "window \<Rightarrow> window" where
  "refresh w = w\<lparr>shown := cells w\<rparr>"

text \<open>A freshly initialised curses screen: every cell is a space.\<close>

definition blank_window :: window where
  "blank_window = \<lparr>cells = (\<lambda>_. blank), shown = (\<lambda>_. blank)\<rparr>"

section \<open>BarGraph\<close>

text \<open>
  The attributes of a \<open>BarGraph\<close> instance, apart from the shared window. The label is
  drawn by the constructor and not stored.
\<close>

record BarGraph =
  pointer_y :: int
  pointer_x :: int
  bar_y :: int
  bar_x :: int

text \<open>\<open>BarGraph.__init__\<close>: sets the four coordinates and draws the static frame.\<close>

definition BarGraph_init :: "window \<Rightarrow> int \<Rightarrow> int \<Rightarrow> pystr \<Rightarrow> BarGraph \<times> window" where
  "BarGraph_init stdscr pos_y pos_x label =
     (let self = \<lparr>pointer_y = pos_y,
                  pointer_x = pos_x + int (length label) + 1,
                  bar_y = pos_y + 1,
                  bar_x = pos_x + int (length label) + 2\<rparr>;
          w1 = addstr stdscr (pointer_y self) (pointer_x self) (corner # py ''0%'');
          w2 = addstr w1 (bar_y self) pos_x
                 (label @ py '' |'' @ replicate 19 light_shade @ py ''|'');
          w3 = addstr w2 (bar_y self + 1) (bar_x self - 1) (py ''0'');
          w4 = addstr w3 (bar_y self + 1) (bar_x self + 18) (py ''100'')
      in (self, refresh w4))"

text \<open>
  \<open>BarGraph.__call__\<close>. The result is the exception raised, if any, and the window as
  the call leaves it. \<open>blocks\<close> is \<open>int(value / 5)\<close> on the rounded value: a float
  division, truncated. The strings drawn on the pointer row and on the bar row are named
  \<open>pointer_text\<close> and \<open>bar_text\<close>.
\<close>

definition blocks_of :: "int \<Rightarrow> int" where
  "blocks_of v = py_int (true_div v 5)"

definition pointer_text :: "int \<Rightarrow> pystr" where
  "pointer_text v = corner # str_int v @ py ''%''"

definition bar_text :: "int \<Rightarrow> pystr" where
  "bar_text v =
     (let blocks = blocks_of v
      in if v \<noteq> 100
         then replicate (nat blocks) full_block @ replicate (nat (19 - blocks)) light_shade
         else replicate (nat (blocks - 1)) full_block)"

definition BarGraph_call :: "BarGraph \<Rightarrow> rat \<Rightarrow> window \<Rightarrow> error option \<times> window" where
  "BarGraph_call self val stdscr =
     (if \<not> (0 \<le> val \<and> val \<le> 100)
      then (Some (AssertionError ''Given value not in range <0;100>''), stdscr)
      else
        let v = py_round val;
            blocks = blocks_of v;
            w1 = addstr stdscr (pointer_y self) (pointer_x self) (replicate 25 blank);
            w2 = addstr w1 (pointer_y self) (pointer_x self + blocks) (pointer_text v);
            w3 = addstr w2 (bar_y self) (bar_x self) (bar_text v)
        in (None, refresh w3))"

text \<open>
  A sequence of update calls on one graph, as the polling loop makes them one after the
  other; an exception ends the sequence.
\<close>

fun calls :: "BarGraph \<Rightarrow> rat list \<Rightarrow> window \<Rightarrow> error option \<times> window" where
  "calls g [] w = (None, w)"
| "calls g (v # vs) w =
     (case BarGraph_call g v w of
        (None, w') \<Rightarrow> calls g vs w'
      | (Some e, w') \<Rightarrow> (Some e, w'))"

text \<open>Reading the window: the \<open>n\<close> glyphs of row \<open>y\<close> from column \<open>x\<close> on.\<close>

definition row_text :: "window \<Rightarrow> int \<Rightarrow> int \<Rightarrow> nat \<Rightarrow> pystr" where
  "row_text w y x n = map (\<lambda>j. cells w (y, x + int j)) [0..<n]"

section \<open>Basic and advanced mode\<close>

text \<open>
  \<open>curses.textpad.rectangle\<close> of the standard library: two vertical lines, two
  horizontal lines, four corners. The line-drawing characters are written as the code
  points a terminal shows for them.
\<close>

definition vline :: "window \<Rightarrow> int \<Rightarrow> int \<Rightarrow> glyph \<Rightarrow> int \<Rightarrow> window" where
  "vline w y x ch n =
     w\<lparr>cells := (\<lambda>(r, c). if c = x \<and> y \<le> r \<and> r < y + n then ch else cells w (r, c))\<rparr>"

definition hline :: "window \<Rightarrow> int \<Rightarrow> int \<Rightarrow> glyph \<Rightarrow> int \<Rightarrow> window" where
  "hline w y x ch n =
     w\<lparr>cells := (\<lambda>(r, c). if r = y \<and> x \<le> c \<and> c < x + n then ch else cells w (r, c))\<rparr>"

definition addch :: "window \<Rightarrow> int \<Rightarrow> int \<Rightarrow> glyph \<Rightarrow> window" where
  "addch w y x ch = addstr w y x [ch]"

definition rectangle :: "window \<Rightarrow> int \<Rightarrow> int \<Rightarrow> int \<Rightarrow> int \<Rightarrow> window" where
  "rectangle win uly ulx lry lrx =
     (let w1 = vline win (uly + 1) ulx 9474 (lry - uly - 1);
          w2 = hline w1 uly (ulx + 1) 9472 (lrx - ulx - 1);
          w3 = hline w2 lry (ulx + 1) 9472 (lrx - ulx - 1);
          w4 = vline w3 (uly + 1) lrx 9474 (lry - uly - 1);
          w5 = addch w4 uly ulx 9484;
          w6 = addch w5 uly lrx 9488;
          w7 = addch w6 lry lrx 9496
      in addch w7 lry ulx 9492)"

text \<open>\<open>basic_init\<close>: the frame, its title and the two graphs.\<close>

definition basic_init :: "window \<Rightarrow> (BarGraph \<times> BarGraph) \<times> window" where
  "basic_init stdscr =
     (let w1 = rectangle stdscr 0 0 4 63;
          w2 = addstr w1 0 2 (py '' Basic '');
          (cpu_graph, w3) = BarGraph_init w2 1 3 (py ''CPU'');
          (ram_graph, w4) = BarGraph_init w3 1 34 (py ''RAM'')
      in ((cpu_graph, ram_graph), w4))"




text \<open>The label \<open>f"CPU{cpu_id:<2}"\<close>: the index left-justified in a field of width 2.\<close>

definition ljust :: "nat \<Rightarrow> pystr \<Rightarrow> pystr" where
  "ljust n s = s @ replicate (n - length s) blank"

definition cpu_label :: "int \<Rightarrow> pystr" where
  "cpu_label cpu_id = py ''CPU'' @ ljust 2 (str_int cpu_id)"

text \<open>
  One pass of the loop of \<open>advanced_init\<close>. The loop state is the running index
  \<open>cpu_id\<close>, the list \<open>cpu_graphs\<close> and the window.
\<close>

definition advanced_row ::
    "int \<Rightarrow> int \<times> BarGraph list \<times> window \<Rightarrow> int \<times> BarGraph list \<times> window" where
  "advanced_row row st =
     (case st of (cpu_id, cpu_graphs, stdscr) \<Rightarrow>
        let row_y = 3 * row;
            (left_graph, w1) = BarGraph_init stdscr (row_y + 6) 1 (cpu_label cpu_id);
            (right_graph, w2) = BarGraph_init w1 (row_y + 6) 32 (cpu_label (cpu_id + 1))
        in (cpu_id + 2, cpu_graphs @ [left_graph] @ [right_graph], w2))"

text \<open>
  \<open>advanced_init\<close>. The core count is what \<open>psutil.cpu_count()\<close> returns: a number,
  or \<open>None\<close> when it cannot be determined, and then the division raises a
  \<open>TypeError\<close>. \<open>rows\<close> is \<open>int(cpu_count / 2)\<close>, a float division, truncated; the
  loop runs over \<open>range(rows)\<close>.
\<close>

definition advanced_init ::
    "window \<Rightarrow> nat option \<Rightarrow> (error + BarGraph list) \<times> window" where
  "advanced_init stdscr cpu_count =
     (case cpu_count of
        None \<Rightarrow> (Inl TypeError, stdscr)
      | Some n \<Rightarrow>
          let rows = py_int (true_div (int n) 2);
              w1 = rectangle stdscr 5 0 (6 + 3 * rows) 63;
              w2 = addstr w1 5 2 (py '' Advanced '');
              (cpu_id, cpu_graphs, w3) = fold advanced_row [0..rows - 1] (1, [], w2)
          in (Inr cpu_graphs, w3))"

text \<open>
  \<open>advanced_update\<close>. The per-core percentages are what
  \<open>psutil.cpu_percent(interval=1, percpu=True)\<close> returns. \<open>push\<close> is the loop over
  \<open>zip(cpu_graphs, usage_per_cpu)\<close>.
\<close>

fun push :: "(BarGraph \<times> rat) list \<Rightarrow> window \<Rightarrow> error option \<times> window" where
  "push [] w = (None, w)"
| "push ((graph, cpu_usage) # rest) w =
     (case BarGraph_call graph cpu_usage w of
        (None, w') \<Rightarrow> push rest w'
      | (Some e, w') \<Rightarrow> (Some e, w'))"

definition advanced_update :: "BarGraph list \<Rightarrow> rat list \<Rightarrow> window \<Rightarrow> error option \<times> window" where
  "advanced_update cpu_graphs usage_per_cpu stdscr =
     (if length cpu_graphs \<noteq> length usage_per_cpu
      then (Some (AssertionError ''Quantity of graphs do not match quantity of CPUs''), stdscr)
      else push (zip cpu_graphs usage_per_cpu) stdscr)"

section \<open>The layout and the update as the specification words them\<close>

text \<open>
  The specification's layout: graph number \<open>i\<close> (counted from 0, row by row, left
  before right) sits in row \<open>i div 2\<close>, in the left column when \<open>i\<close> is even, and is
  labelled with the index \<open>i + 1\<close>. \<open>build_graphs\<close> constructs the graphs of a list
  of (row, column, label) in order.
\<close>

definition graph_spec :: "nat \<Rightarrow> int \<times> int \<times> pystr" where
  "graph_spec i = (6 + 3 * int (i div 2), if even i then 1 else 32, cpu_label (int i + 1))"

fun build_graphs :: "window \<Rightarrow> (int \<times> int \<times> pystr) list \<Rightarrow> BarGraph list \<times> window" where
  "build_graphs w [] = ([], w)"
| "build_graphs w ((y, x, l) # rest) =
     (let (g, w1) = BarGraph_init w y x l;
          (gs, w2) = build_graphs w1 rest
      in (g # gs, w2))"

text \<open>
  The specification's update: value number \<open>i\<close> goes to graph number \<open>i\<close>, for the
  positions in the given order.
\<close>

fun push_by_position ::
    "nat list \<Rightarrow> BarGraph list \<Rightarrow> rat list \<Rightarrow> window \<Rightarrow> error option \<times> window" where
  "push_by_position [] gs us w = (None, w)"
| "push_by_position (i # is) gs us w =
     (case BarGraph_call (gs ! i) (us ! i) w of
        (None, w') \<Rightarrow> push_by_position is gs us w'
      | (Some e, w') \<Rightarrow> (Some e, w'))"

section \<open>Facts about the Python values\<close>

lemma put_apply:
  "put f y x s (r, c) =
     (if r = y \<and> x \<le> c \<and> c < x + int (length s) then s ! nat (c - x) else f (r, c))"
proof (induction s arbitrary: f x)
  case Nil
  then show ?case by simp
next
  case (Cons a s)
  have ih: "put (f((y, x) := a)) y (x + 1) s (r, c) =
     (if r = y \<and> x + 1 \<le> c \<and> c < x + 1 + int (length s) then s ! nat (c - (x + 1))
      else (f((y, x) := a)) (r, c))"
    by (rule Cons.IH)
  have n: "x + 1 \<le> c \<Longrightarrow> nat (c - x) = Suc (nat (c - (x + 1)))" by simp
  show ?case
    unfolding put.simps ih using n by auto
qed

lemma py_round_floor: "\<lfloor>v\<rfloor> \<le> py_round v \<and> py_round v \<le> \<lfloor>v\<rfloor> + 1"
  by (simp add: py_round_def Let_def)

lemma py_round_of_int: "py_round (of_int i) = i"
  by (simp add: py_round_def)

lemma py_round_bounds:
  assumes "0 \<le> v" "v \<le> 100"
  shows "0 \<le> py_round v \<and> py_round v \<le> 100"
proof -
  have f0: "0 \<le> \<lfloor>v\<rfloor>" using assms by simp
  have f1: "\<lfloor>v\<rfloor> \<le> 100" using assms by (simp add: floor_le_iff)
  show ?thesis
  proof (cases "\<lfloor>v\<rfloor> = 100")
    case True
    have "of_int \<lfloor>v\<rfloor> \<le> v" by simp
    then have "v = 100" using True assms by simp
    then show ?thesis using py_round_of_int [of 100] by simp
  next
    case False
    then show ?thesis using f0 f1 py_round_floor [of v] by linarith
  qed
qed

lemma py_round_near: "\<bar>of_int (py_round y) - y\<bar> \<le> 1 / 2"
proof -
  have "of_int \<lfloor>y\<rfloor> \<le> y" "y < of_int \<lfloor>y\<rfloor> + 1" by linarith+
  then show ?thesis by (auto simp: py_round_def Let_def)
qed

lemma expo_lower: 
  assumes "x \<noteq> 0"
  shows "2 powi expo x \<le> \<bar>x\<bar>"
proof (cases "1 \<le> \<bar>x\<bar>")
  case True
  let ?n = "\<lfloor>\<bar>x\<bar>\<rfloor>"
  have n: "0 < ?n" using True by simp
  then have b: "1 \<le> bitlen ?n" using bitlen_eq_zero_iff [of ?n] bitlen_nonneg [of ?n] by linarith
  have "(2::int) ^ nat (bitlen ?n - 1) \<le> ?n" using bitlen_bounds [OF n] by simp
  then have "(of_int ((2::int) ^ nat (bitlen ?n - 1)) :: rat) \<le> of_int ?n"
    by (simp only: of_int_le_iff)
  also have "\<dots> \<le> \<bar>x\<bar>" by simp
  finally have "(2::rat) ^ nat (bitlen ?n - 1) \<le> \<bar>x\<bar>" by simp
  then show ?thesis using True b by (simp add: expo_def power_int_def)
next
  case False
  let ?m = "\<lceil>1 / \<bar>x\<bar>\<rceil>"
  have x: "0 < \<bar>x\<bar>" using assms by simp
  have y: "1 < 1 / \<bar>x\<bar>" using False x by simp
  then have m: "0 < ?m - 1" by (simp add: less_ceiling_iff)
  have "?m - 1 < 2 ^ nat (bitlen (?m - 1))" using bitlen_bounds [OF m] by simp
  then have "?m \<le> 2 ^ nat (bitlen (?m - 1))" by simp
  then have b: "(of_int ?m :: rat) \<le> of_int (2 ^ nat (bitlen (?m - 1)))"
    by (simp only: of_int_le_iff)
  have a: "1 / \<bar>x\<bar> \<le> of_int ?m" by (rule le_of_int_ceiling)
  have c: "(of_int ((2::int) ^ nat (bitlen (?m - 1))) :: rat) = 2 ^ nat (bitlen (?m - 1))"
    by simp
  have "1 / \<bar>x\<bar> \<le> 2 ^ nat (bitlen (?m - 1))"
    using a b c by linarith
  then have "1 \<le> 2 ^ nat (bitlen (?m - 1)) * \<bar>x\<bar>"
    using x by (simp add: pos_divide_le_eq)
  then have "inverse (2 ^ nat (bitlen (?m - 1))) \<le> \<bar>x\<bar>"
    by (simp add: field_simps)
  moreover have "(2::rat) powi (- bitlen (?m - 1)) = inverse (2 ^ nat (bitlen (?m - 1)))"
    using bitlen_nonneg [of "?m - 1"] by (simp only: power_int_minus power_int_nonneg_exp)
  moreover have "expo x = - bitlen (?m - 1)" using False by (simp add: expo_def)
  ultimately show ?thesis by simp
qed

lemma fl64_error: "\<bar>fl64 x - x\<bar> \<le> \<bar>x\<bar> / 2 ^ 53"
proof (cases "x = 0")
  case True
  then show ?thesis by (simp add: fl64_def)
next
  case False
  let ?u = "(2::rat) powi (expo x - 52)"
  have u: "0 < ?u" by simp
  have "fl64 x - x = (of_int (py_round (x / ?u)) - x / ?u) * ?u"
    using False u by (simp add: fl64_def Let_def field_simps)
  then have "\<bar>fl64 x - x\<bar> = \<bar>of_int (py_round (x / ?u)) - x / ?u\<bar> * ?u"
    using u by (simp add: abs_mult)
  also have "\<dots> \<le> 1 / 2 * ?u"
    using py_round_near [of "x / ?u"] u by (intro mult_right_mono) simp_all
  also have "1 / 2 * ?u = 2 powi expo x / 2 ^ 53"
  proof -
    have "(2::rat) powi (expo x - 52) = 2 powi expo x / 2 powi 52"
      by (rule power_int_diff) simp
    moreover have "(2::rat) powi 52 = 2 ^ 52" by (simp add: power_int_def)
    ultimately show ?thesis by simp
  qed
  also have "\<dots> \<le> \<bar>x\<bar> / 2 ^ 53"
    using expo_lower [OF False] by (simp add: divide_right_mono)
  finally show ?thesis .
qed

lemma expo_less:
  assumes "x \<noteq> 0" "\<bar>x\<bar> < 2 powi b"
  shows "expo x < b"
proof (rule ccontr)
  assume "\<not> expo x < b"
  then have "b \<le> expo x" by simp
  then have "(2::rat) powi b \<le> 2 powi expo x" by (intro power_int_increasing) simp_all
  then show False using expo_lower [OF assms(1)] assms(2) by linarith
qed

lemma fl64_exact:
  assumes "\<bar>k\<bar> < 2 ^ 53"
  shows "fl64 (of_int k * 2 powi j) = of_int k * 2 powi j"
proof (cases "k = 0")
  case True
  then show ?thesis by (simp add: fl64_def)
next
  case False
  let ?x = "of_int k * (2::rat) powi j"
  let ?e = "expo ?x"
  have x: "?x \<noteq> 0" using False by simp
  have "(of_int \<bar>k\<bar> :: rat) < of_int (2 ^ 53)" using assms by (simp only: of_int_less_iff)
  then have "\<bar>of_int k :: rat\<bar> < 2 ^ 53" by simp
  then have "\<bar>?x\<bar> < 2 ^ 53 * 2 powi j"
    by (simp add: abs_mult)
  also have "(2::rat) ^ 53 * 2 powi j = 2 powi (53 + j)"
    using power_int_add [of "2::rat" 53 j] by (simp add: power_int_def)
  finally have e: "?e < 53 + j" using x by (intro expo_less)
  define d where "d = nat (j - ?e + 52)"
  have d: "j - ?e + 52 = int d" using e by (simp add: d_def)
  have "?x / 2 powi (?e - 52) = of_int k * 2 powi (j - (?e - 52))"
    by (simp add: power_int_diff)
  also have "j - (?e - 52) = int d" using d by simp
  also have "of_int k * (2::rat) powi int d = of_int (k * 2 ^ d)" by simp
  finally have q: "?x / 2 powi (?e - 52) = of_int (k * 2 ^ d)" .
  have "fl64 ?x = of_int (k * 2 ^ d) * 2 powi (?e - 52)"
    using x by (simp only: fl64_def Let_def q py_round_of_int if_False)
  also have "\<dots> = ?x / 2 powi (?e - 52) * 2 powi (?e - 52)" by (simp only: q)
  also have "\<dots> = ?x" by simp
  finally show ?thesis .
qed

lemma fl64_of_int: "\<bar>k\<bar> < 2 ^ 53 \<Longrightarrow> fl64 (of_int k) = of_int k"
  using fl64_exact [of k 0] by simp

lemma true_div_5:
  assumes "0 \<le> v" "v \<le> 100"
  shows "py_int (true_div v 5) = v div 5"
proof -
  define k where "k = v div 5"
  define x :: rat where "x = of_int v / 5"
  have k: "0 \<le> k" "k \<le> 20" using assms by (simp_all add: k_def)
  show ?thesis
  proof (cases "v mod 5 = 0")
    case True
    then have "v = 5 * k" unfolding k_def by presburger
    then have "true_div v 5 = fl64 (of_int k)" by (simp add: true_div_def)
    also have "\<dots> = of_int k" using k by (intro fl64_of_int) simp
    finally show ?thesis using k by (simp add: py_int_def k_def)
  next
    case False
    have v: "v = 5 * k + v mod 5" by (simp add: k_def)
    have "0 \<le> v mod 5" "v mod 5 < 5" by simp_all
    with False have r: "1 \<le> v mod 5" "v mod 5 \<le> 4" by linarith+
    have "5 * k + 1 \<le> v" "v \<le> 5 * k + 4" using v r by linarith+
    then have "(of_int (5 * k + 1) :: rat) \<le> of_int v" "(of_int v :: rat) \<le> of_int (5 * k + 4)"
      by (simp_all only: of_int_le_iff)
    then have lo: "of_int k + 1 / 5 \<le> x" and hi: "x \<le> of_int k + 4 / 5"
      by (simp_all add: x_def field_simps)
    have "(of_int k :: rat) \<le> of_int 20" "(of_int 0 :: rat) \<le> of_int k"
      using k by (simp_all only: of_int_le_iff)
    then have kk: "(of_int k :: rat) \<le> 20" "(0::rat) \<le> of_int k" by simp_all
    have "\<bar>fl64 x - x\<bar> \<le> \<bar>x\<bar> / 2 ^ 53" by (rule fl64_error)
    also have "\<dots> \<le> 21 / 2 ^ 53"
      using lo hi kk by (intro divide_right_mono) (simp_all add: abs_if)
    also have "\<dots> < 1 / 5" by simp
    finally have "\<bar>fl64 x - x\<bar> < 1 / 5" .
    then have "of_int k \<le> fl64 x" "fl64 x < of_int k + 1"
      using lo hi by (auto simp: abs_if split: if_splits)
    then have "\<lfloor>fl64 x\<rfloor> = k" "0 \<le> fl64 x" using kk by (simp_all add: floor_unique)
    then show ?thesis by (simp add: py_int_def true_div_def x_def k_def)
  qed
qed

lemma true_div_2:
  assumes "n < 2 ^ 53"
  shows "py_int (true_div (int n) 2) = py_int (of_nat n / 2)"
proof -
  have "\<bar>int n\<bar> < 2 ^ 53" using assms by simp
  then have "fl64 (of_int (int n) * 2 powi (- 1)) = of_int (int n) * 2 powi (- 1)"
    by (rule fl64_exact)
  moreover have "of_int (int n) * (2::rat) powi (- 1) = of_nat n / 2"
    by (simp add: power_int_minus field_simps)
  ultimately have "fl64 (of_nat n / 2) = of_nat n / 2" by (simp only:)
  moreover have "true_div (int n) 2 = fl64 (of_nat n / 2)" by (simp add: true_div_def)
  ultimately show ?thesis by (simp only:)
qed

lemma blocks_of_div: "0 \<le> v \<Longrightarrow> v \<le> 100 \<Longrightarrow> blocks_of v = v div 5"
  by (simp add: blocks_of_def true_div_5)

lemma blocks_of_floor:
  "0 \<le> v \<Longrightarrow> v \<le> 100 \<Longrightarrow> blocks_of v = \<lfloor>(of_int v :: rat) / 5\<rfloor>"
  using floor_divide_of_int_eq [of v 5, where ?'a = rat] by (simp add: blocks_of_div)

lemma rows_div:
  assumes "n < 2 ^ 53"
  shows "py_int (true_div (int n) 2) = int (n div 2)"
proof -
  have "\<lfloor>(of_int (int n) :: rat) / of_int 2\<rfloor> = int n div 2"
    by (rule floor_divide_of_int_eq)
  then have "py_int (of_nat n / 2) = int (n div 2)" by (simp add: py_int_def zdiv_int)
  then show ?thesis using true_div_2 [OF assms] by simp
qed

lemma length_bar_text:
  assumes "0 \<le> u" "u \<le> 100"
  shows "length (bar_text u) = 19"
proof (cases "u = 100")
  case True
  then show ?thesis by (simp add: bar_text_def blocks_of_div)
next
  case False
  with assms have "u div 5 \<le> 19" "0 \<le> u div 5" by simp_all
  with False assms show ?thesis by (simp add: bar_text_def blocks_of_div Let_def)
qed

lemma length_str_int:
  assumes "0 \<le> u" "u \<le> 100"
  shows "length (str_int u) = (if u < 10 then 1 else if u < 100 then 2 else 3)"
proof -
  have a: "n < 10 \<Longrightarrow> length (str_nat n) = 1" for n
    by (subst str_nat.simps) simp
  have b: "\<not> n < 10 \<Longrightarrow> n < 100 \<Longrightarrow> length (str_nat n) = 2" for n
    by (subst str_nat.simps) (simp add: a)
  have c: "length (str_nat 100) = 3"
    by (subst str_nat.simps) (simp add: b)
  have d: "u = 100 \<Longrightarrow> nat u = 100" by simp
  show ?thesis using assms a [of "nat u"] b [of "nat u"] c d
    by (auto simp: str_int_def)
qed

lemma length_pointer_text:
  "0 \<le> u \<Longrightarrow> u \<le> 100 \<Longrightarrow>
     length (pointer_text u) = (if u < 10 then 3 else if u < 100 then 4 else 5)"
  by (simp add: pointer_text_def length_str_int py_def)

lemma pointer_fits:
  assumes "0 \<le> u" "u \<le> 100"
  shows "0 \<le> blocks_of u \<and> blocks_of u + int (length (pointer_text u)) \<le> 25"
proof -
  have "u < 10 \<Longrightarrow> u div 5 \<le> 1" by simp
  moreover have "u < 100 \<Longrightarrow> u div 5 \<le> 19" by simp
  moreover have "u div 5 \<le> 20" using assms by simp
  moreover have "0 \<le> u div 5" using assms by simp
  ultimately show ?thesis using assms
    by (auto simp: blocks_of_div length_pointer_text)
qed

section \<open>What one update writes\<close>

lemma call_cells:
  assumes "0 \<le> v" "v \<le> 100"
  shows "cells (snd (BarGraph_call g v w)) (r, c) =
    (if r = bar_y g \<and> bar_x g \<le> c \<and> c < bar_x g + 19
     then bar_text (py_round v) ! nat (c - bar_x g)
     else if r = pointer_y g \<and> pointer_x g + blocks_of (py_round v) \<le> c
          \<and> c < pointer_x g + blocks_of (py_round v) + int (length (pointer_text (py_round v)))
     then pointer_text (py_round v) ! nat (c - (pointer_x g + blocks_of (py_round v)))
     else if r = pointer_y g \<and> pointer_x g \<le> c \<and> c < pointer_x g + 25
     then blank
     else cells w (r, c))"
proof -
  have l: "length (bar_text (py_round v)) = 19"
    using assms py_round_bounds length_bar_text by simp
  show ?thesis using assms
    by (auto simp: BarGraph_call_def addstr_def refresh_def Let_def put_apply l)
qed

lemma call_shown:
  "0 \<le> v \<Longrightarrow> v \<le> 100 \<Longrightarrow>
     shown (snd (BarGraph_call g v w)) = cells (snd (BarGraph_call g v w))"
  by (simp add: BarGraph_call_def addstr_def refresh_def Let_def)

lemma call_returns:
  "0 \<le> v \<Longrightarrow> v \<le> 100 \<Longrightarrow> fst (BarGraph_call g v w) = None"
  by (simp add: BarGraph_call_def Let_def)

lemma call_absorb:
  assumes "0 \<le> u" "u \<le> 100" "0 \<le> v" "v \<le> 100"
  shows "BarGraph_call g v (snd (BarGraph_call g u w)) = BarGraph_call g v w"
proof -
  let ?a = "BarGraph_call g v (snd (BarGraph_call g u w))"
  let ?b = "BarGraph_call g v w"
  have fit: "0 \<le> blocks_of (py_round u)
      \<and> blocks_of (py_round u) + int (length (pointer_text (py_round u))) \<le> 25"
    using assms py_round_bounds pointer_fits by simp
  have "cells (snd ?a) (r, c) = cells (snd ?b) (r, c)" for r c
    using fit by (auto simp: call_cells assms)
  then have c: "cells (snd ?a) = cells (snd ?b)" by auto
  then have s: "shown (snd ?a) = shown (snd ?b)" using assms by (simp add: call_shown)
  have "snd ?a = snd ?b" using c s by simp
  moreover have "fst ?a = fst ?b" using assms by (simp add: call_returns)
  ultimately show ?thesis by (simp add: prod_eq_iff)
qed

lemma row_text_eqI:
  assumes "length s = n" "\<And>j. j < n \<Longrightarrow> cells w (y, x + int j) = s ! j"
  shows "row_text w y x n = s"
  using assms by (auto simp: row_text_def list_eq_iff_nth_eq)

lemma call_bar_row:
  assumes "0 \<le> v" "v \<le> 100"
  shows "row_text (snd (BarGraph_call g v w)) (bar_y g) (bar_x g) 19 = bar_text (py_round v)"
proof (rule row_text_eqI)
  show "length (bar_text (py_round v)) = 19"
    using assms py_round_bounds length_bar_text by simp
next
  fix j :: nat assume "j < 19"
  then show "cells (snd (BarGraph_call g v w)) (bar_y g, bar_x g + int j) = bar_text (py_round v) ! j"
    using assms by (simp add: call_cells)
qed

lemma call_pointer_row:
  assumes "0 \<le> v" "v \<le> 100" "bar_y g \<noteq> pointer_y g"
  shows "row_text (snd (BarGraph_call g v w)) (pointer_y g)
           (pointer_x g + blocks_of (py_round v)) (length (pointer_text (py_round v)))
         = pointer_text (py_round v)"
proof (rule row_text_eqI)
  fix j :: nat assume "j < length (pointer_text (py_round v))"
  then show "cells (snd (BarGraph_call g v w))
       (pointer_y g, pointer_x g + blocks_of (py_round v) + int j) = pointer_text (py_round v) ! j"
    using assms by (simp add: call_cells)
qed simp

lemma call_frame:
  assumes "0 \<le> v" "v \<le> 100"
    and "\<not> (r = pointer_y g \<and> pointer_x g \<le> c \<and> c < pointer_x g + 25)"
    and "\<not> (r = bar_y g \<and> bar_x g \<le> c \<and> c < bar_x g + 19)"
  shows "cells (snd (BarGraph_call g v w)) (r, c) = cells w (r, c)"
proof -
  have "0 \<le> blocks_of (py_round v)
      \<and> blocks_of (py_round v) + int (length (pointer_text (py_round v))) \<le> 25"
    using assms py_round_bounds pointer_fits by simp
  then show ?thesis using assms by (auto simp: call_cells)
qed

lemma calls_frame:
  assumes "\<forall>v\<in>set vs. 0 \<le> v \<and> v \<le> 100"
    and "\<not> (r = pointer_y g \<and> pointer_x g \<le> c \<and> c < pointer_x g + 25)"
    and "\<not> (r = bar_y g \<and> bar_x g \<le> c \<and> c < bar_x g + 19)"
  shows "cells (snd (calls g vs w)) (r, c) = cells w (r, c)"
  using assms
proof (induction vs arbitrary: w)
  case Nil
  then show ?case by simp
next
  case (Cons v vs)
  obtain w' where w': "BarGraph_call g v w = (None, w')"
    using Cons.prems(1) call_returns [of v g w] by (cases "BarGraph_call g v w") auto
  have "cells (snd (calls g vs w')) (r, c) = cells w' (r, c)"
    using Cons by simp
  also have "\<dots> = cells w (r, c)"
    using call_frame [of v r g c w] Cons.prems w' by simp
  finally show ?case using w' by simp
qed

lemma calls_last:
  assumes "vs \<noteq> []" "\<forall>v\<in>set vs. 0 \<le> v \<and> v \<le> 100"
  shows "calls g vs w = BarGraph_call g (last vs) w"
  using assms
proof (induction vs arbitrary: w)
  case Nil
  then show ?case by simp
next
  case (Cons v vs)
  obtain w' where w': "BarGraph_call g v w = (None, w')"
    using Cons.prems(2) call_returns [of v g w] by (cases "BarGraph_call g v w") auto
  show ?case
  proof (cases "vs = []")
    case True
    then show ?thesis using w' by simp
  next
    case False
    then have "calls g vs w' = BarGraph_call g (last vs) w'"
      using Cons by simp
    also have "\<dots> = BarGraph_call g (last vs) w"
      using call_absorb [of v "last vs" g w] Cons.prems(2) False w' by simp
    finally show ?thesis using False w' by simp
  qed
qed

lemma init_graph:
  "fst (BarGraph_init w pos_y pos_x label) =
     \<lparr>pointer_y = pos_y, pointer_x = pos_x + int (length label) + 1,
      bar_y = pos_y + 1, bar_x = pos_x + int (length label) + 2\<rparr>"
  by (simp add: BarGraph_init_def Let_def)

lemma init_rows: "bar_y (fst (BarGraph_init w pos_y pos_x label)) \<noteq>
    pointer_y (fst (BarGraph_init w pos_y pos_x label))"
  by (simp add: init_graph)

lemma basic_init_graphs:
  "fst (basic_init w) =
     (\<lparr>pointer_y = 1, pointer_x = 7, bar_y = 2, bar_x = 8\<rparr>,
      \<lparr>pointer_y = 1, pointer_x = 38, bar_y = 2, bar_x = 39\<rparr>)"
  by (simp add: basic_init_def Let_def split_beta init_graph py_def)

lemma bar_text_eq:
  assumes "0 \<le> v" "v \<le> 100"
  shows "bar_text v =
     (if v < 100
      then replicate (nat (min (blocks_of v) 19)) full_block
             @ replicate (nat (19 - blocks_of v)) light_shade
      else replicate (nat (blocks_of 100 - 1)) full_block)"
proof (cases "v < 100")
  case True
  then have "v div 5 \<le> 19" by simp
  then show ?thesis using True assms by (simp add: bar_text_def blocks_of_div Let_def)
next
  case False
  then have "v = 100" using assms by simp
  then show ?thesis by (simp add: bar_text_def Let_def)
qed

lemma nth_padded:
  "b + length p \<le> n \<Longrightarrow> j < n \<Longrightarrow>
     (replicate b x @ p @ replicate (n - b - length p) x) ! j =
     (if b \<le> j \<and> j < b + length p then p ! (j - b) else x)"
  by (auto simp: nth_append)

lemma call_pointer_span_nat:
  assumes "0 \<le> v" "v \<le> 100" "bar_y g \<noteq> pointer_y g"
    and bb: "blocks_of (py_round v) = int b"
  shows "row_text (snd (BarGraph_call g v w)) (pointer_y g) (pointer_x g) 25 =
     replicate b blank @ pointer_text (py_round v)
       @ replicate (25 - b - length (pointer_text (py_round v))) blank"
proof -
  let ?p = "pointer_text (py_round v)"
  have "blocks_of (py_round v) + int (length ?p) \<le> 25"
    using assms(1,2) py_round_bounds [of v] pointer_fits [of "py_round v"] by simp
  then have le: "b + length ?p \<le> 25" using bb by linarith
  show ?thesis
  proof (rule row_text_eqI)
    show "length (replicate b blank @ ?p @ replicate (25 - b - length ?p) blank) = 25"
      using le by simp
  next
    fix j :: nat assume j: "j < 25"
    have "cells (snd (BarGraph_call g v w)) (pointer_y g, pointer_x g + int j) =
        (if int b \<le> int j \<and> int j < int b + int (length ?p)
         then ?p ! nat (int j - int b) else blank)"
      using assms(1-3) j by (simp add: call_cells bb)
    also have "\<dots> = (if b \<le> j \<and> j < b + length ?p then ?p ! (j - b) else blank)"
      by (simp add: nat_diff_distrib' flip: of_nat_diff)
    also have "\<dots> = (replicate b blank @ ?p @ replicate (25 - b - length ?p) blank) ! j"
      using nth_padded [OF le j] by simp
    finally show "cells (snd (BarGraph_call g v w)) (pointer_y g, pointer_x g + int j) =
        (replicate b blank @ ?p @ replicate (25 - b - length ?p) blank) ! j" .
  qed
qed

lemma call_pointer_span:
  assumes "0 \<le> v" "v \<le> 100" "bar_y g \<noteq> pointer_y g"
  shows "row_text (snd (BarGraph_call g v w)) (pointer_y g) (pointer_x g) 25 =
     replicate (nat (blocks_of (py_round v))) blank @ pointer_text (py_round v)
       @ replicate (25 - nat (blocks_of (py_round v)) - length (pointer_text (py_round v))) blank"
proof -
  have "0 \<le> blocks_of (py_round v)"
    using assms py_round_bounds pointer_fits by simp
  then have "blocks_of (py_round v) = int (nat (blocks_of (py_round v)))" by simp
  then show ?thesis using assms by (rule call_pointer_span_nat [rotated 3])
qed

section \<open>What the constructor draws\<close>

lemma init_window:
  "cells (snd (BarGraph_init w pos_y pos_x label)) =
     put (put (put (put (cells w) pos_y (pos_x + int (length label) + 1) (corner # py ''0%''))
       (pos_y + 1) pos_x (label @ py '' |'' @ replicate 19 light_shade @ py ''|''))
       (pos_y + 2) (pos_x + int (length label) + 1) (py ''0''))
       (pos_y + 2) (pos_x + int (length label) + 20) (py ''100'')"
  by (simp add: BarGraph_init_def Let_def addstr_def refresh_def algebra_simps
        del: put.simps)

lemma init_label_row:
  assumes "pos_x \<le> c" "c < pos_x + int (length label) + 22"
  shows "cells (snd (BarGraph_init w pos_y pos_x label)) (pos_y + 1, c) =
     (label @ py '' |'' @ replicate 19 light_shade @ py ''|'') ! nat (c - pos_x)"
  using assms by (simp add: init_window put_apply py_def del: put.simps)

lemma init_static:
  assumes "BarGraph_init w0 pos_y pos_x label = (g, w1)"
  shows "row_text w1 (bar_y g) pos_x (length label + 2) = label @ py '' |''"
    and "cells w1 (bar_y g, bar_x g + 19) = of_char CHR ''|''"
    and "cells w1 (bar_y g + 1, bar_x g - 1) = of_char CHR ''0''"
    and "row_text w1 (bar_y g + 1) (bar_x g + 18) 3 = py ''100''"
proof -
  have g: "g = fst (BarGraph_init w0 pos_y pos_x label)"
    and w1: "w1 = snd (BarGraph_init w0 pos_y pos_x label)"
    using assms by simp_all
  show "row_text w1 (bar_y g) pos_x (length label + 2) = label @ py '' |''"
  proof (rule row_text_eqI)
    fix j :: nat assume j: "j < length label + 2"
    then have "cells w1 (bar_y g, pos_x + int j) =
        (label @ py '' |'' @ replicate 19 light_shade @ py ''|'') ! j"
      by (simp add: g w1 init_graph init_label_row)
    also have "\<dots> = (label @ py '' |'') ! j"
    proof -
      consider "j < length label" | "j = length label" | "j = Suc (length label)"
        using j by linarith
      then show ?thesis by cases (simp_all add: nth_append py_def)
    qed
    finally show "cells w1 (bar_y g, pos_x + int j) = (label @ py '' |'') ! j" .
  qed (simp add: py_def)
  have "cells w1 (bar_y g, bar_x g + 19) =
      (label @ py '' |'' @ replicate 19 light_shade @ py ''|'') ! (length label + 21)"
    using init_label_row [of pos_x "pos_x + int (length label) + 21" label w0 pos_y]
    by (simp add: g w1 init_graph nat_add_distrib ac_simps)
  then show "cells w1 (bar_y g, bar_x g + 19) = of_char CHR ''|''"
    by (simp add: nth_append py_def)
  show "cells w1 (bar_y g + 1, bar_x g - 1) = of_char CHR ''0''"
    by (simp add: g w1 init_graph init_window put_apply py_def del: put.simps)
  show "row_text w1 (bar_y g + 1) (bar_x g + 18) 3 = py ''100''"
    by (rule row_text_eqI)
       (simp_all add: g w1 init_graph init_window put_apply py_def del: put.simps)
qed

section \<open>The bar row\<close>

text \<open>
  C1. For every integer value \<open>v\<close> from 0 to 100 the block count is \<open>floor (v / 5)\<close>.
  The string drawn on the bar row is \<open>min blocks 19\<close> filled glyphs followed by
  \<open>19 - blocks\<close> empty ones when \<open>v < 100\<close>, and \<open>blocks - 1 = 19\<close> filled glyphs
  and nothing else when \<open>v = 100\<close>. The update returns normally, and afterwards the 19
  cells from the bar start show exactly that string.
\<close>

theorem bar_row_blocks:
  fixes v :: int
  assumes "0 \<le> v" "v \<le> 100"
  shows "blocks_of v = \<lfloor>(of_int v :: rat) / 5\<rfloor>
    \<and> bar_text v =
         (if v < 100
          then replicate (nat (min (blocks_of v) 19)) full_block
                 @ replicate (nat (19 - blocks_of v)) light_shade
          else replicate (nat (blocks_of 100 - 1)) full_block)
    \<and> blocks_of 100 - 1 = 19
    \<and> fst (BarGraph_call g (of_int v) w) = None
    \<and> row_text (snd (BarGraph_call g (of_int v) w)) (bar_y g) (bar_x g) 19 = bar_text v"
proof -
  have r: "(0::rat) \<le> of_int v" "(of_int v :: rat) \<le> 100" using assms by simp_all
  have "row_text (snd (BarGraph_call g (of_int v) w)) (bar_y g) (bar_x g) 19 = bar_text v"
    using call_bar_row [OF r] by (simp add: py_round_of_int)
  moreover have "fst (BarGraph_call g (of_int v) w) = None"
    using call_returns [OF r] .
  moreover have "blocks_of 100 - 1 = 19" by (simp add: blocks_of_div)
  ultimately show ?thesis using assms blocks_of_floor bar_text_eq by simp
qed

theorem bar_row_blocks_witness:
  "(0::int) \<le> 50 \<and> (50::int) \<le> 100 \<and> blocks_of 50 = 10
   \<and> row_text (snd (BarGraph_call (fst (fst (basic_init blank_window))) 50
                     (snd (basic_init blank_window)))) 2 8 19
       = replicate 10 full_block @ replicate 9 light_shade"
  using bar_row_blocks [of 50 "fst (fst (basic_init blank_window))" "snd (basic_init blank_window)"]
  by (simp add: basic_init_graphs blocks_of_div)

section \<open>Repeated updates\<close>

text \<open>
  C6. The update is idempotent: for every value from 0 to 100 and every window, a second
  call with the same value returns what the first call returned and leaves the window,
  content and display, as the first call left it.
\<close>

theorem update_idempotent:
  "0 \<le> v \<Longrightarrow> v \<le> 100 \<Longrightarrow>
     BarGraph_call g v (snd (BarGraph_call g v w)) = BarGraph_call g v w"
  by (rule call_absorb)

theorem update_idempotent_witness:
  "(0::rat) \<le> 50 \<and> (50::rat) \<le> 100
   \<and> BarGraph_call (fst (fst (basic_init blank_window))) 50
        (snd (BarGraph_call (fst (fst (basic_init blank_window))) 50 (snd (basic_init blank_window))))
     = BarGraph_call (fst (fst (basic_init blank_window))) 50 (snd (basic_init blank_window))"
  using update_idempotent [of 50 "fst (fst (basic_init blank_window))" "snd (basic_init blank_window)"]
  by simp

text \<open>
  C7. After a non-empty sequence of updates with values from 0 to 100 on a constructed
  graph, the outcome is that of a single update with the last value. The 25 cells of the
  pointer row from the pointer anchor on hold blanks, then the pointer text of the last
  value at its block offset, then blanks: nothing of an earlier pointer is left. The bar
  row holds the bar of the last value. For every value of the sequence the pointer text
  ends within the 25 blanked cells.
\<close>

theorem pointer_follows_last_value:
  assumes "vs \<noteq> []" and "\<forall>v\<in>set vs. 0 \<le> v \<and> v \<le> 100"
    and "g = fst (BarGraph_init w0 pos_y pos_x label)"
  shows "calls g vs w = BarGraph_call g (last vs) w
    \<and> row_text (snd (calls g vs w)) (pointer_y g) (pointer_x g) 25 =
        replicate (nat (blocks_of (py_round (last vs)))) blank
          @ pointer_text (py_round (last vs))
          @ replicate (25 - nat (blocks_of (py_round (last vs)))
                         - length (pointer_text (py_round (last vs)))) blank
    \<and> row_text (snd (calls g vs w)) (bar_y g) (bar_x g) 19 = bar_text (py_round (last vs))
    \<and> (\<forall>v\<in>set vs. 0 \<le> blocks_of (py_round v)
           \<and> blocks_of (py_round v) + int (length (pointer_text (py_round v))) \<le> 25)"
proof -
  have l: "0 \<le> last vs \<and> last vs \<le> 100" using assms(1,2) by simp
  have rows: "bar_y g \<noteq> pointer_y g" using assms(3) init_rows by simp
  have a: "calls g vs w = BarGraph_call g (last vs) w"
    using assms(1,2) by (rule calls_last)
  have b: "\<forall>v\<in>set vs. 0 \<le> blocks_of (py_round v)
           \<and> blocks_of (py_round v) + int (length (pointer_text (py_round v))) \<le> 25"
    using assms(2) py_round_bounds pointer_fits by blast
  show ?thesis
    using a b l rows call_pointer_span [of "last vs" g w] call_bar_row [of "last vs" g w]
    by simp
qed

theorem pointer_follows_last_value_witness:
  "[100, 7] \<noteq> ([] :: rat list) \<and> (0::rat) \<le> 100 \<and> (100::rat) \<le> 100
   \<and> (0::rat) \<le> 7 \<and> (7::rat) \<le> 100
   \<and> calls (fst (BarGraph_init blank_window 1 3 (py ''CPU''))) [100, 7]
        (snd (BarGraph_init blank_window 1 3 (py ''CPU'')))
      = BarGraph_call (fst (BarGraph_init blank_window 1 3 (py ''CPU''))) 7
        (snd (BarGraph_init blank_window 1 3 (py ''CPU'')))
   \<and> row_text (snd (calls (fst (BarGraph_init blank_window 1 3 (py ''CPU''))) [100, 7]
        (snd (BarGraph_init blank_window 1 3 (py ''CPU''))))) 1 7 25
      = blank # corner # py ''7%'' @ replicate 21 blank
   \<and> blocks_of (py_round 100) + int (length (pointer_text (py_round 100))) \<le> 25"
proof -
  let ?g = "fst (BarGraph_init blank_window 1 3 (py ''CPU''))"
  let ?w = "snd (BarGraph_init blank_window 1 3 (py ''CPU''))"
  have p: "pointer_text 7 = corner # py ''7%''"
    by (simp add: pointer_text_def str_int_def str_nat.simps py_def)
  have h1: "[100, 7] \<noteq> ([] :: rat list)" by simp
  have h2: "\<forall>v\<in>set [100, 7 :: rat]. 0 \<le> v \<and> v \<le> 100" by simp
  note t = pointer_follows_last_value [OF h1 h2 refl, of blank_window 1 3 "py ''CPU''" ?w]
  have c1: "calls ?g [100, 7] ?w = BarGraph_call ?g 7 ?w"
    using t [THEN conjunct1] by (simp del: calls.simps)
  have c2: "row_text (snd (calls ?g [100, 7] ?w)) 1 7 25
      = blank # corner # py ''7%'' @ replicate 21 blank"
    using t [THEN conjunct2, THEN conjunct1]
    by (simp add: init_graph py_round_of_int [of 7, simplified] blocks_of_div p py_def
          del: calls.simps)
  have c3: "blocks_of (py_round 100) + int (length (pointer_text (py_round 100))) \<le> 25"
    using t [THEN conjunct2, THEN conjunct2, THEN conjunct2] by simp
  show ?thesis using c1 c2 c3 by simp
qed

section \<open>The pointer\<close>

text \<open>
  C2, as the code has it. The pointer text, the corner glyph followed by the rounded
  value and a percent sign, is drawn at the block count \<open>round v div 5\<close> columns from
  the pointer anchor \<open>pointer_x\<close>, which is the column before the bar start (the column
  of the opening bracket): the pointer begins at column \<open>bar_x - 1 + blocks\<close>. For the
  value 0 it begins at the pointer anchor, one column left of the bar start.
\<close>

theorem pointer_column:
  assumes "0 \<le> v" "v \<le> 100" "g = fst (BarGraph_init w0 pos_y pos_x label)"
  shows "blocks_of (py_round v) = py_round v div 5
    \<and> pointer_x g = bar_x g - 1
    \<and> pointer_text (py_round v) = corner # str_int (py_round v) @ py ''%''
    \<and> row_text (snd (BarGraph_call g v w)) (pointer_y g)
          (bar_x g - 1 + blocks_of (py_round v)) (length (pointer_text (py_round v)))
        = pointer_text (py_round v)"
proof -
  have px: "pointer_x g = bar_x g - 1" and rows: "bar_y g \<noteq> pointer_y g"
    using assms(3) by (simp_all add: init_graph)
  have "0 \<le> py_round v" "py_round v \<le> 100" using assms(1,2) py_round_bounds by simp_all
  then have "blocks_of (py_round v) = py_round v div 5" by (rule blocks_of_div)
  moreover have "row_text (snd (BarGraph_call g v w)) (pointer_y g)
          (bar_x g - 1 + blocks_of (py_round v)) (length (pointer_text (py_round v)))
        = pointer_text (py_round v)"
    using call_pointer_row [OF assms(1,2) rows, of w] px by simp
  ultimately show ?thesis using px by (simp add: pointer_text_def)
qed

theorem pointer_column_witness:
  "(0::rat) \<le> 0 \<and> (0::rat) \<le> 100
   \<and> row_text (snd (BarGraph_call (fst (BarGraph_init blank_window 1 3 (py ''CPU''))) 0
          (snd (BarGraph_init blank_window 1 3 (py ''CPU''))))) 1 (8 - 1 + 0) 3
       = corner # py ''0%''"
proof -
  have p: "pointer_text 0 = corner # py ''0%''"
    by (simp add: pointer_text_def str_int_def str_nat.simps py_def)
  have len: "length (py ''CPU'') = 3" by (simp add: py_def)
  have r: "py_round 0 = 0" using py_round_of_int [of 0] by simp
  have h: "(0::rat) \<le> 0" "(0::rat) \<le> 100" by simp_all
  note t = pointer_column [OF h refl, of blank_window 1 3 "py ''CPU''"
      "snd (BarGraph_init blank_window 1 3 (py ''CPU''))"]
  have "length (corner # py ''0%'') = 3" by (simp add: py_def)
  then show ?thesis
    using t [THEN conjunct2, THEN conjunct2, THEN conjunct2]
    by (simp add: init_graph len r p blocks_of_div)
qed

text \<open>
  C2 as stated fails for the value 0 on the CPU graph of the basic layout: the block
  count is 0, the bar starts at column 8, and the cell of the pointer row at the bar
  start does not hold the pointer glyph, which is one column to the left.
\<close>

theorem pointer_at_bar_start_counterexample:
  "blocks_of (py_round 0) = 0
   \<and> bar_x (fst (BarGraph_init blank_window 1 3 (py ''CPU''))) = 8
   \<and> cells (snd (BarGraph_call (fst (BarGraph_init blank_window 1 3 (py ''CPU''))) 0
          (snd (BarGraph_init blank_window 1 3 (py ''CPU'')))))
        (pointer_y (fst (BarGraph_init blank_window 1 3 (py ''CPU''))),
         bar_x (fst (BarGraph_init blank_window 1 3 (py ''CPU''))) + blocks_of (py_round 0))
       \<noteq> corner
   \<and> cells (snd (BarGraph_call (fst (BarGraph_init blank_window 1 3 (py ''CPU''))) 0
          (snd (BarGraph_init blank_window 1 3 (py ''CPU'')))))
        (pointer_y (fst (BarGraph_init blank_window 1 3 (py ''CPU''))),
         bar_x (fst (BarGraph_init blank_window 1 3 (py ''CPU''))) - 1)
       = corner"
proof -
  have p: "pointer_text 0 = corner # py ''0%''"
    by (simp add: pointer_text_def str_int_def str_nat.simps py_def)
  have len: "length (py ''CPU'') = 3" by (simp add: py_def)
  have r: "py_round 0 = 0" using py_round_of_int [of 0] by simp
  show ?thesis
    by (simp add: call_cells init_graph len r p blocks_of_div py_def corner_def)
qed

section \<open>What an update leaves alone\<close>

text \<open>
  C8. Updates with values from 0 to 100 change no cell outside the 25 cells of the
  pointer row from the pointer anchor and the 19 bar cells. On the window the constructor
  leaves, the label with its separator and opening bracket, the closing bracket, and the
  "0" and "100" of the scale row are still there after the updates.
\<close>

theorem update_leaves_frame:
  assumes "\<forall>v\<in>set vs. 0 \<le> v \<and> v \<le> 100"
    and "BarGraph_init w0 pos_y pos_x label = (g, w1)"
  shows "(\<forall>r c. \<not> (r = pointer_y g \<and> pointer_x g \<le> c \<and> c < pointer_x g + 25)
              \<and> \<not> (r = bar_y g \<and> bar_x g \<le> c \<and> c < bar_x g + 19)
            \<longrightarrow> cells (snd (calls g vs w)) (r, c) = cells w (r, c))
    \<and> row_text (snd (calls g vs w1)) (bar_y g) pos_x (length label + 2) = label @ py '' |''
    \<and> cells (snd (calls g vs w1)) (bar_y g, bar_x g + 19) = of_char CHR ''|''
    \<and> cells (snd (calls g vs w1)) (bar_y g + 1, bar_x g - 1) = of_char CHR ''0''
    \<and> row_text (snd (calls g vs w1)) (bar_y g + 1) (bar_x g + 18) 3 = py ''100''"
proof -
  have g: "g = fst (BarGraph_init w0 pos_y pos_x label)" using assms(2) by simp
  have ptr_row: "pointer_y g = pos_y" and bar_row: "bar_y g = pos_y + 1"
    and bar_col: "bar_x g = pos_x + int (length label) + 2"
    by (simp_all add: g init_graph)
  have frame: "cells (snd (calls g vs w)) (r, c) = cells w (r, c)"
    if "\<not> (r = pointer_y g \<and> pointer_x g \<le> c \<and> c < pointer_x g + 25)"
      and "\<not> (r = bar_y g \<and> bar_x g \<le> c \<and> c < bar_x g + 19)" for r c w
    using assms(1) that by (rule calls_frame)
  have a: "row_text (snd (calls g vs w1)) (bar_y g) pos_x (length label + 2)
      = row_text w1 (bar_y g) pos_x (length label + 2)"
    unfolding row_text_def
  proof (rule map_cong [OF refl])
    fix j assume "j \<in> set [0..<length label + 2]"
    then have "int j < int (length label) + 2" by auto
    then show "cells (snd (calls g vs w1)) (bar_y g, pos_x + int j)
        = cells w1 (bar_y g, pos_x + int j)"
      by (intro frame) (simp_all add: ptr_row bar_row bar_col)
  qed
  have b: "cells (snd (calls g vs w1)) (bar_y g, bar_x g + 19) = cells w1 (bar_y g, bar_x g + 19)"
    by (simp add: frame ptr_row bar_row)
  have c: "cells (snd (calls g vs w1)) (bar_y g + 1, bar_x g - 1)
      = cells w1 (bar_y g + 1, bar_x g - 1)"
    by (simp add: frame ptr_row bar_row)
  have d: "row_text (snd (calls g vs w1)) (bar_y g + 1) (bar_x g + 18) 3
      = row_text w1 (bar_y g + 1) (bar_x g + 18) 3"
    unfolding row_text_def
    by (rule map_cong [OF refl], rule frame) (simp_all add: ptr_row bar_row)
  show ?thesis
    using frame a b c d init_static [OF assms(2)] by simp
qed

theorem update_leaves_frame_witness:
  "(0::rat) \<le> 100 \<and> (100::rat) \<le> 100 \<and> (0::rat) \<le> 7 \<and> (7::rat) \<le> 100
   \<and> row_text (snd (calls (fst (BarGraph_init blank_window 1 3 (py ''CPU''))) [100, 7]
        (snd (BarGraph_init blank_window 1 3 (py ''CPU''))))) 2 3 5 = py ''CPU |''
   \<and> cells (snd (calls (fst (BarGraph_init blank_window 1 3 (py ''CPU''))) [100, 7]
        (snd (BarGraph_init blank_window 1 3 (py ''CPU''))))) (2, 27) = of_char CHR ''|''
   \<and> cells (snd (calls (fst (BarGraph_init blank_window 1 3 (py ''CPU''))) [100, 7]
        (snd (BarGraph_init blank_window 1 3 (py ''CPU''))))) (3, 7) = of_char CHR ''0''
   \<and> row_text (snd (calls (fst (BarGraph_init blank_window 1 3 (py ''CPU''))) [100, 7]
        (snd (BarGraph_init blank_window 1 3 (py ''CPU''))))) 3 26 3 = py ''100''
   \<and> cells (snd (calls (fst (BarGraph_init blank_window 1 3 (py ''CPU''))) [100, 7]
        blank_window)) (0, 0) = blank"
proof -
  let ?g = "fst (BarGraph_init blank_window 1 3 (py ''CPU''))"
  let ?w = "snd (BarGraph_init blank_window 1 3 (py ''CPU''))"
  have h1: "\<forall>v\<in>set [100, 7 :: rat]. 0 \<le> v \<and> v \<le> 100" by simp
  have h2: "BarGraph_init blank_window 1 3 (py ''CPU'') = (?g, ?w)" by simp
  note t = update_leaves_frame [OF h1 h2, THEN conjunct2]
  have len: "length (py ''CPU'') = 3" by (simp add: py_def)
  have lab: "py ''CPU'' @ py '' |'' = py ''CPU |''" by (simp add: py_def)
  have "cells (snd (calls ?g [100, 7] blank_window)) (0, 0) = cells blank_window (0, 0)"
    using update_leaves_frame [OF h1 h2, of blank_window, THEN conjunct1, rule_format, of 0 0]
    by (simp add: init_graph del: calls.simps)
  then have f: "cells (snd (calls ?g [100, 7] blank_window)) (0, 0) = blank"
    by (simp add: blank_window_def del: calls.simps)
  show ?thesis using t f by (simp add: init_graph len lab del: calls.simps)
qed

section \<open>Rejected values\<close>

text \<open>
  C5. A value below 0 or above 100 fails the assertion with the message
  "Given value not in range <0;100>", and the call draws nothing: the window, and with it
  the displayed pointer and bar, is exactly what it was before the call.
\<close>

theorem call_out_of_range:
  "v < 0 \<or> 100 < v \<Longrightarrow>
     BarGraph_call g v w = (Some (AssertionError ''Given value not in range <0;100>''), w)"
  by (auto simp: BarGraph_call_def)

theorem call_out_of_range_witness:
  "BarGraph_call (fst (BarGraph_init blank_window 1 3 (py ''CPU''))) (- 1) blank_window
     = (Some (AssertionError ''Given value not in range <0;100>''), blank_window)
   \<and> BarGraph_call (fst (BarGraph_init blank_window 1 3 (py ''CPU''))) 101 blank_window
     = (Some (AssertionError ''Given value not in range <0;100>''), blank_window)"
  using call_out_of_range [of "- 1" "fst (BarGraph_init blank_window 1 3 (py ''CPU''))" blank_window]
    call_out_of_range [of 101 "fst (BarGraph_init blank_window 1 3 (py ''CPU''))" blank_window]
  by simp

section \<open>The advanced-mode update\<close>

lemma push_zip_drop:
  assumes "length gs = length us"
  shows "push (zip (drop k gs) (drop k us)) w = push_by_position [k..<length gs] gs us w"
proof (induction "length gs - k" arbitrary: k w)
  case 0
  then show ?case using assms by simp
next
  case (Suc n)
  then have k: "k < length gs" by simp
  then have dg: "drop k gs = gs ! k # drop (Suc k) gs"
    and du: "drop k us = us ! k # drop (Suc k) us"
    using assms by (simp_all add: Cons_nth_drop_Suc)
  have up: "[k..<length gs] = k # [Suc k..<length gs]"
    using k by (simp add: upt_conv_Cons)
  have ih: "push (zip (drop (Suc k) gs) (drop (Suc k) us)) w'
      = push_by_position [Suc k..<length gs] gs us w'" for w'
    using Suc.hyps(1) [of "Suc k" w'] Suc.hyps(2) by simp
  show ?case
    by (simp add: dg du up ih del: upt.simps split: prod.splits option.splits)
qed

text \<open>
  C4. When the number of graphs differs from the number of per-core values, the update
  fails with the assertion "Quantity of graphs do not match quantity of CPUs" before any
  value is pushed: the window is unchanged. When the numbers are equal, the values are
  pushed by position, value \<open>i\<close> to graph \<open>i\<close>, from the first position to the last.
\<close>

theorem advanced_update_checked:
  "(length gs \<noteq> length us \<longrightarrow>
      advanced_update gs us w
        = (Some (AssertionError ''Quantity of graphs do not match quantity of CPUs''), w))
   \<and> (length gs = length us \<longrightarrow>
      advanced_update gs us w = push_by_position [0..<length gs] gs us w)"
  using push_zip_drop [of gs us 0 w] by (simp add: advanced_update_def)

theorem advanced_update_checked_witness:
  "advanced_update [fst (fst (basic_init blank_window)), snd (fst (basic_init blank_window))]
       [10] (snd (basic_init blank_window))
     = (Some (AssertionError ''Quantity of graphs do not match quantity of CPUs''),
        snd (basic_init blank_window))
   \<and> advanced_update [fst (fst (basic_init blank_window)), snd (fst (basic_init blank_window))]
       [10, 20] (snd (basic_init blank_window))
     = BarGraph_call (snd (fst (basic_init blank_window))) 20
         (snd (BarGraph_call (fst (fst (basic_init blank_window))) 10
                (snd (basic_init blank_window))))"
proof -
  let ?gs = "[fst (fst (basic_init blank_window)), snd (fst (basic_init blank_window))]"
  let ?w = "snd (basic_init blank_window)"
  have a: "advanced_update ?gs [10] ?w
      = (Some (AssertionError ''Quantity of graphs do not match quantity of CPUs''), ?w)"
    using advanced_update_checked [of ?gs "[10]" ?w] by simp
  have "fst (BarGraph_call (fst (fst (basic_init blank_window))) 10 ?w) = None"
    by (simp add: call_returns)
  moreover have "fst (BarGraph_call (snd (fst (basic_init blank_window))) 20
      (snd (BarGraph_call (fst (fst (basic_init blank_window))) 10 ?w))) = None"
    by (simp add: call_returns)
  moreover have "[0..<2] = [0, Suc 0]" by (simp add: upt_conv_Cons)
  ultimately have b: "advanced_update ?gs [10, 20] ?w
      = BarGraph_call (snd (fst (basic_init blank_window))) 20
         (snd (BarGraph_call (fst (fst (basic_init blank_window))) 10 ?w))"
    using advanced_update_checked [of ?gs "[10, 20]" ?w]
    by (simp add: prod_eq_iff split: prod.splits option.splits)
  show ?thesis using a b by simp
qed

section \<open>The advanced-mode layout\<close>

lemma build_graphs_append:
  "build_graphs w (xs @ ys) =
     (fst (build_graphs w xs) @ fst (build_graphs (snd (build_graphs w xs)) ys),
      snd (build_graphs (snd (build_graphs w xs)) ys))"
  by (induction xs arbitrary: w) (auto simp: split_beta Let_def)

lemma build_graphs_fst:
  "fst (build_graphs w xs) =
     map (\<lambda>(y, x, l). \<lparr>pointer_y = y, pointer_x = x + int (length l) + 1,
                        bar_y = y + 1, bar_x = x + int (length l) + 2\<rparr>) xs"
  by (induction xs arbitrary: w) (auto simp: split_beta Let_def init_graph)

lemma specs_Suc:
  "map graph_spec [0..<2 * Suc m] =
     map graph_spec [0..<2 * m] @ [graph_spec (2 * m), graph_spec (Suc (2 * m))]"
  by simp

lemma advanced_row_step:
  "advanced_row (int m) (1 + 2 * int m, gs, w) =
     (1 + 2 * int (Suc m),
      gs @ fst (build_graphs w [graph_spec (2 * m), graph_spec (Suc (2 * m))]),
      snd (build_graphs w [graph_spec (2 * m), graph_spec (Suc (2 * m))]))"
  by (simp add: advanced_row_def graph_spec_def Let_def split_beta algebra_simps)

lemma advanced_loop:
  "fold advanced_row [0..int m - 1] (1, [], w) =
     (1 + 2 * int m, build_graphs w (map graph_spec [0..<2 * m]))"
proof (induction m)
  case 0
  then show ?case by simp
next
  case (Suc m)
  let ?two = "[graph_spec (2 * m), graph_spec (Suc (2 * m))]"
  obtain G W where gw: "build_graphs w (map graph_spec [0..<2 * m]) = (G, W)"
    by (cases "build_graphs w (map graph_spec [0..<2 * m])")
  have "[0..int (Suc m) - 1] = [0..int m - 1] @ [int m]"
    using upto_rec2 [of 0 "int m"] by simp
  then have "fold advanced_row [0..int (Suc m) - 1] (1, [], w)
      = advanced_row (int m) (1 + 2 * int m, G, W)"
    using Suc.IH gw by simp
  also have "\<dots> = (1 + 2 * int (Suc m), G @ fst (build_graphs W ?two),
      snd (build_graphs W ?two))"
    by (rule advanced_row_step)
  also have "(G @ fst (build_graphs W ?two), snd (build_graphs W ?two))
      = build_graphs w (map graph_spec [0..<2 * m] @ ?two)"
    using build_graphs_append [of w "map graph_spec [0..<2 * m]" ?two] gw by simp
  finally show ?case by (simp only: specs_Suc)
qed

lemma advanced_init_eq:
  "n < 2 ^ 53 \<Longrightarrow> advanced_init w (Some n) =
     (Inr (fst (build_graphs (addstr (rectangle w 5 0 (6 + 3 * int (n div 2)) 63) 5 2
                                (py '' Advanced ''))
                 (map graph_spec [0..<2 * (n div 2)]))),
      snd (build_graphs (addstr (rectangle w 5 0 (6 + 3 * int (n div 2)) 63) 5 2
                           (py '' Advanced ''))
            (map graph_spec [0..<2 * (n div 2)])))"
  by (simp add: advanced_init_def rows_div Let_def advanced_loop split_beta del: upt.simps)

lemma specs8: "map graph_spec [0..<8] =
  [(6, 1, py ''CPU1 ''), (6, 32, py ''CPU2 ''), (9, 1, py ''CPU3 ''), (9, 32, py ''CPU4 ''),
   (12, 1, py ''CPU5 ''), (12, 32, py ''CPU6 ''), (15, 1, py ''CPU7 ''), (15, 32, py ''CPU8 '')]"
  by code_simp

lemma specs4: "map graph_spec [0..<2 * (5 div 2)] =
  [(6, 1, py ''CPU1 ''), (6, 32, py ''CPU2 ''), (9, 1, py ''CPU3 ''), (9, 32, py ''CPU4 '')]"
  by code_simp

lemma length_cpu_label:
  assumes "1 \<le> n" "n \<le> 99"
  shows "length (cpu_label n) = 5"
proof -
  have "length (str_int n) = (if n < 10 then 1 else 2)"
    using assms length_str_int [of n] by simp
  then show ?thesis by (simp add: cpu_label_def ljust_def py_def)
qed

text \<open>
  C3. With 5 cores \<open>int(5 / 2)\<close> is 2: \<open>advanced_init\<close> creates 4 graphs in 2 rows,
  labelled CPU1 to CPU4, and not the 2 times \<open>ceil (5 / 2)\<close>, which is 6, of the claim.
  The fifth core gets no graph, against the comment of the code on the rows "needed to
  display all graphs", and the first \<open>advanced_update\<close> with the 5 per-core values fails
  its assertion "Quantity of graphs do not match quantity of CPUs".
\<close>

theorem advanced_init_five_cores:
  "fst (advanced_init blank_window (Some 5)) =
       Inr [\<lparr>pointer_y = 6, pointer_x = 7, bar_y = 7, bar_x = 8\<rparr>,
            \<lparr>pointer_y = 6, pointer_x = 38, bar_y = 7, bar_x = 39\<rparr>,
            \<lparr>pointer_y = 9, pointer_x = 7, bar_y = 10, bar_x = 8\<rparr>,
            \<lparr>pointer_y = 9, pointer_x = 38, bar_y = 10, bar_x = 39\<rparr>]
   \<and> length [\<lparr>pointer_y = 6, pointer_x = 7, bar_y = 7, bar_x = 8\<rparr>,
            \<lparr>pointer_y = 6, pointer_x = 38, bar_y = 7, bar_x = 39\<rparr>,
            \<lparr>pointer_y = 9, pointer_x = 7, bar_y = 10, bar_x = 8\<rparr>,
            \<lparr>pointer_y = 9, pointer_x = 38, bar_y = 10, bar_x = 39\<rparr>]
       \<noteq> 2 * nat \<lceil>(5::rat) / 2\<rceil>
   \<and> advanced_update
         [\<lparr>pointer_y = 6, pointer_x = 7, bar_y = 7, bar_x = 8\<rparr>,
          \<lparr>pointer_y = 6, pointer_x = 38, bar_y = 7, bar_x = 39\<rparr>,
          \<lparr>pointer_y = 9, pointer_x = 7, bar_y = 10, bar_x = 8\<rparr>,
          \<lparr>pointer_y = 9, pointer_x = 38, bar_y = 10, bar_x = 39\<rparr>]
         [10, 20, 30, 40, 50] (snd (advanced_init blank_window (Some 5)))
       = (Some (AssertionError ''Quantity of graphs do not match quantity of CPUs''),
          snd (advanced_init blank_window (Some 5)))"
proof -
  have "\<lceil>(5::rat) / 2\<rceil> = 3" by (simp add: ceiling_eq_iff)
  moreover have "fst (advanced_init blank_window (Some 5)) =
       Inr [\<lparr>pointer_y = 6, pointer_x = 7, bar_y = 7, bar_x = 8\<rparr>,
            \<lparr>pointer_y = 6, pointer_x = 38, bar_y = 7, bar_x = 39\<rparr>,
            \<lparr>pointer_y = 9, pointer_x = 7, bar_y = 10, bar_x = 8\<rparr>,
            \<lparr>pointer_y = 9, pointer_x = 38, bar_y = 10, bar_x = 39\<rparr>]"
  proof -
    have "(5::nat) < 2 ^ 53" by simp
    then show ?thesis
      by (simp only: advanced_init_eq fst_conv build_graphs_fst specs4) (simp add: py_def)
  qed
  ultimately show ?thesis by (simp add: advanced_update_def)
qed

text \<open>
  For an even core count \<open>C\<close> (below \<open>2 ^ 53\<close>, where the float quotient \<open>C / 2\<close> is
  exact) the layout is the one C3 describes. \<open>advanced_init\<close> returns \<open>C\<close> graphs, two
  for each of the \<open>C div 2\<close> rows. They are the graphs constructed, in this order, for
  the layout of the specification: graph \<open>i\<close> in row \<open>i div 2\<close> (three lines per row,
  from line 6), left column for even \<open>i\<close> and right column for odd \<open>i\<close>, labelled with
  the index \<open>i + 1\<close>. With 8 cores these are 4 rows of 2 graphs labelled CPU1 to CPU8.
\<close>

theorem advanced_layout_even:
  assumes "even C" and "C < 2 ^ 53"
  shows "\<exists>gs w'. advanced_init w (Some C) = (Inr gs, w')
    \<and> (gs, w') = build_graphs (addstr (rectangle w 5 0 (6 + 3 * int (C div 2)) 63) 5 2
                                 (py '' Advanced ''))
                   (map graph_spec [0..<C])
    \<and> length gs = C \<and> C = 2 * (C div 2)
    \<and> (\<forall>i<C. gs ! i =
          \<lparr>pointer_y = 6 + 3 * int (i div 2),
           pointer_x = (if even i then 1 else 32) + int (length (cpu_label (int i + 1))) + 1,
           bar_y = 6 + 3 * int (i div 2) + 1,
           bar_x = (if even i then 1 else 32) + int (length (cpu_label (int i + 1))) + 2\<rparr>)"
proof -
  let ?W = "addstr (rectangle w 5 0 (6 + 3 * int (C div 2)) 63) 5 2 (py '' Advanced '')"
  let ?gs = "fst (build_graphs ?W (map graph_spec [0..<C]))"
  let ?w' = "snd (build_graphs ?W (map graph_spec [0..<C]))"
  have c: "2 * (C div 2) = C" using assms by simp
  have a: "advanced_init w (Some C) = (Inr ?gs, ?w')"
    using advanced_init_eq [OF assms(2), of w] by (simp only: c)
  have l: "length ?gs = C" by (simp add: build_graphs_fst)
  have n: "?gs ! i =
          \<lparr>pointer_y = 6 + 3 * int (i div 2),
           pointer_x = (if even i then 1 else 32) + int (length (cpu_label (int i + 1))) + 1,
           bar_y = 6 + 3 * int (i div 2) + 1,
           bar_x = (if even i then 1 else 32) + int (length (cpu_label (int i + 1))) + 2\<rparr>"
    if "i < C" for i
    using that by (simp add: build_graphs_fst graph_spec_def)
  show ?thesis using a l n c by (intro exI [of _ ?gs] exI [of _ ?w']) simp
qed

theorem advanced_layout_even_witness:
  "even (8::nat) \<and> (8::nat) < 2 ^ 53
   \<and> fst (advanced_init blank_window (Some 8)) =
       Inr [\<lparr>pointer_y = 6, pointer_x = 7, bar_y = 7, bar_x = 8\<rparr>,
            \<lparr>pointer_y = 6, pointer_x = 38, bar_y = 7, bar_x = 39\<rparr>,
            \<lparr>pointer_y = 9, pointer_x = 7, bar_y = 10, bar_x = 8\<rparr>,
            \<lparr>pointer_y = 9, pointer_x = 38, bar_y = 10, bar_x = 39\<rparr>,
            \<lparr>pointer_y = 12, pointer_x = 7, bar_y = 13, bar_x = 8\<rparr>,
            \<lparr>pointer_y = 12, pointer_x = 38, bar_y = 13, bar_x = 39\<rparr>,
            \<lparr>pointer_y = 15, pointer_x = 7, bar_y = 16, bar_x = 8\<rparr>,
            \<lparr>pointer_y = 15, pointer_x = 38, bar_y = 16, bar_x = 39\<rparr>]
   \<and> map (snd \<circ> snd) (map graph_spec [0..<8]) =
       [py ''CPU1 '', py ''CPU2 '', py ''CPU3 '', py ''CPU4 '',
        py ''CPU5 '', py ''CPU6 '', py ''CPU7 '', py ''CPU8 '']"
proof -
  have e: "even (8::nat)" "(8::nat) < 2 ^ 53" by simp_all
  obtain gs w' where a: "advanced_init blank_window (Some 8) = (Inr gs, w')"
    and b: "(gs, w') = build_graphs (addstr (rectangle blank_window 5 0 (6 + 3 * int (8 div 2)) 63)
                5 2 (py '' Advanced '')) (map graph_spec [0..<8])"
    using advanced_layout_even [OF e, of blank_window] by blast
  have "gs = fst (build_graphs (addstr (rectangle blank_window 5 0 (6 + 3 * int (8 div 2)) 63)
                5 2 (py '' Advanced '')) (map graph_spec [0..<8]))"
    using b by (metis fst_conv)
  then have "gs = [\<lparr>pointer_y = 6, pointer_x = 7, bar_y = 7, bar_x = 8\<rparr>,
            \<lparr>pointer_y = 6, pointer_x = 38, bar_y = 7, bar_x = 39\<rparr>,
            \<lparr>pointer_y = 9, pointer_x = 7, bar_y = 10, bar_x = 8\<rparr>,
            \<lparr>pointer_y = 9, pointer_x = 38, bar_y = 10, bar_x = 39\<rparr>,
            \<lparr>pointer_y = 12, pointer_x = 7, bar_y = 13, bar_x = 8\<rparr>,
            \<lparr>pointer_y = 12, pointer_x = 38, bar_y = 13, bar_x = 39\<rparr>,
            \<lparr>pointer_y = 15, pointer_x = 7, bar_y = 16, bar_x = 8\<rparr>,
            \<lparr>pointer_y = 15, pointer_x = 38, bar_y = 16, bar_x = 39\<rparr>]"
    by (simp only: build_graphs_fst specs8) (simp add: py_def)
  moreover have "map (snd \<circ> snd) (map graph_spec [0..<8]) =
       [py ''CPU1 '', py ''CPU2 '', py ''CPU3 '', py ''CPU4 '',
        py ''CPU5 '', py ''CPU6 '', py ''CPU7 '', py ''CPU8 '']"
    by (simp only: specs8) simp
  ultimately show ?thesis using a e by simp
qed

text \<open>
  C10. For every core index from 1 to 99 the label has length exactly 5. For a core count
  of at most 99, every graph of the left column (even position) has its pointer anchor at
  column 7 and its bar start at column 8, and every graph of the right column has them at
  columns 38 and 39, whatever the core index.
\<close>

theorem label_width:
  "(1 \<le> n \<and> n \<le> 99 \<longrightarrow> length (cpu_label n) = 5)
   \<and> (C \<le> 99 \<longrightarrow>
        (\<exists>gs w'. advanced_init w (Some C) = (Inr gs, w') \<and> length gs = 2 * (C div 2)
           \<and> (\<forall>i<length gs. pointer_x (gs ! i) = (if even i then 7 else 38)
                  \<and> bar_x (gs ! i) = (if even i then 8 else 39))))"
proof (intro conjI impI)
  assume "1 \<le> n \<and> n \<le> 99"
  then show "length (cpu_label n) = 5" using length_cpu_label by simp
next
  assume C: "C \<le> 99"
  let ?W = "addstr (rectangle w 5 0 (6 + 3 * int (C div 2)) 63) 5 2 (py '' Advanced '')"
  let ?gs = "fst (build_graphs ?W (map graph_spec [0..<2 * (C div 2)]))"
  let ?w' = "snd (build_graphs ?W (map graph_spec [0..<2 * (C div 2)]))"
  have "C < 2 ^ 53" using C by simp
  then have a: "advanced_init w (Some C) = (Inr ?gs, ?w')" by (rule advanced_init_eq)
  have l: "length ?gs = 2 * (C div 2)" by (simp add: build_graphs_fst)
  have n: "pointer_x (?gs ! i) = (if even i then 7 else 38)
        \<and> bar_x (?gs ! i) = (if even i then 8 else 39)" if "i < length ?gs" for i
  proof -
    have i: "i < 2 * (C div 2)" using that l by simp
    then have "1 \<le> int i + 1" "int i + 1 \<le> 99" using C by simp_all
    then have "length (cpu_label (int i + 1)) = 5" by (rule length_cpu_label)
    then show ?thesis using i by (simp add: build_graphs_fst graph_spec_def)
  qed
  show "\<exists>gs w'. advanced_init w (Some C) = (Inr gs, w') \<and> length gs = 2 * (C div 2)
           \<and> (\<forall>i<length gs. pointer_x (gs ! i) = (if even i then 7 else 38)
                  \<and> bar_x (gs ! i) = (if even i then 8 else 39))"
    using a l n by (intro exI [of _ ?gs] exI [of _ ?w']) simp
qed

theorem label_width_witness:
  "(1::int) \<le> 10 \<and> (10::int) \<le> 99 \<and> length (cpu_label 10) = 5
   \<and> cpu_label 1 = py ''CPU1 '' \<and> cpu_label 10 = py ''CPU10''
   \<and> (8::nat) \<le> 99
   \<and> bar_x (projr (fst (advanced_init blank_window (Some 8))) ! 2) = 8
   \<and> bar_x (projr (fst (advanced_init blank_window (Some 8))) ! 7) = 39"
proof -
  note t = label_width [of 10 8 blank_window]
  have a: "length (cpu_label 10) = 5" using t by simp
  have h: "(8::nat) \<le> 99" by simp
  obtain gs w' where g: "advanced_init blank_window (Some 8) = (Inr gs, w')"
    and l: "length gs = 2 * (8 div 2)"
    and n: "\<forall>i<length gs. pointer_x (gs ! i) = (if even i then 7 else 38)
                  \<and> bar_x (gs ! i) = (if even i then 8 else 39)"
    using t [THEN conjunct2, rule_format, OF h] by blast
  have "bar_x (gs ! 2) = 8" "bar_x (gs ! 7) = 39" using n l by simp_all
  moreover have "cpu_label 1 = py ''CPU1 ''" "cpu_label 10 = py ''CPU10''"
    by code_simp+
  ultimately show ?thesis using a g by simp
qed

section \<open>The RAM percentage\<close>





end
